theory Spec2Isabelle
  imports Main "HOL-Library.Sublist"
begin

section \<open>Python strings\<close>

text \<open>
  A Python \<open>str\<close> is modelled as a \<open>string\<close>: a list of characters, one \<open>char\<close> for each
  code point (HOL has 256 characters, so the model covers the code points below 256).
  \<open>length\<close> is Python's \<open>len\<close>, \<open>@\<close> is \<open>+\<close>, \<open>take n s\<close> is the slice \<open>s[:n]\<close>, and the
  empty string \<open>[]\<close> is the only string that is false in a condition.
\<close>

text \<open>\<open>s.startswith(p)\<close>\<close>

fun startswith :: "string \<Rightarrow> string \<Rightarrow> bool" where
  "startswith s [] = True"
| "startswith [] (p # ps) = False"
| "startswith (c # cs) (p # ps) = (c = p \<and> startswith cs ps)"

text \<open>\<open>s.endswith(p)\<close>\<close>

definition endswith :: "string \<Rightarrow> string \<Rightarrow> bool" where
  "endswith s p = startswith (rev s) (rev p)"

text \<open>\<open>sub in s\<close>: \<open>sub\<close> occurs in \<open>s\<close> as a contiguous substring.\<close>

fun contains :: "string \<Rightarrow> string \<Rightarrow> bool" where
  "contains [] sub = (sub = [])"
| "contains (c # cs) sub = (startswith (c # cs) sub \<or> contains cs sub)"

text \<open>
  \<open>c.isspace()\<close> for one character: the code points below 256 that Python counts as
  whitespace are 9 to 13, 28 to 32, 133 and 160.
\<close>

definition isspace :: "char \<Rightarrow> bool" where
  "isspace c = (of_char c \<in> {9, 10, 11, 12, 13, 28, 29, 30, 31, 32, 133, 160 :: nat})"

text \<open>\<open>s.strip()\<close>: whitespace is dropped from the front and from the back.\<close>

definition strip :: "string \<Rightarrow> string" where
  "strip s = rev (dropWhile isspace (rev (dropWhile isspace s)))"

text \<open>
  \<open>s.replace(old, new)\<close>. Python scans \<open>s\<close> from the left; where \<open>old\<close> starts it writes
  \<open>new\<close> and goes on behind the occurrence, elsewhere it copies one character.
  \<open>replace_from\<close> is that scan for a non-empty \<open>old\<close>. With an empty \<open>old\<close> Python puts
  \<open>new\<close> in front of every character and at the end.
\<close>

fun replace_from :: "string \<Rightarrow> string \<Rightarrow> string \<Rightarrow> string" where
  "replace_from old new [] = []"
| "replace_from old new (c # cs) =
     (if old \<noteq> [] \<and> startswith (c # cs) old
      then new @ replace_from old new (drop (length old) (c # cs))
      else c # replace_from old new cs)"

definition replace :: "string \<Rightarrow> string \<Rightarrow> string \<Rightarrow> string" where
  "replace s old new =
     (if old = [] then new @ concat (map (\<lambda>c. c # new) s) else replace_from old new s)"

section \<open>Correction of the endpoint URL (\<open>get_models\<close>, both services)\<close>

text \<open>
  The block of \<open>get_models\<close> that corrects \<open>llm_url\<close> is the same in \<open>main.py\<close> and in
  \<open>gemini_app.py\<close>. It is three \<open>if\<close> statements run in order, each rewriting \<open>llm_url\<close>,
  under the guard \<open>if llm_url:\<close>. Each statement is one function here; \<open>resolve\<close> is the
  block. The \<open>print\<close> of the corrected URL is diagnostic output and is not modelled.
\<close>

definition gemini_host :: string where
  "gemini_host = ''generativelanguage.googleapis.com''"

text \<open>\<open>if not llm_url.startswith("http"): llm_url = "http://" + llm_url\<close>\<close>

definition add_scheme :: "string \<Rightarrow> string" where
  "add_scheme llm_url =
     (if \<not> startswith llm_url ''http'' then ''http://'' @ llm_url else llm_url)"

text \<open>\<open>if llm_url.startswith("ttp"): llm_url = "h" + llm_url\<close>\<close>

definition repair_ttp :: "string \<Rightarrow> string" where
  "repair_ttp llm_url = (if startswith llm_url ''ttp'' then ''h'' @ llm_url else llm_url)"

text \<open>
  \<open>if "generativelanguage.googleapis.com" in llm_url and "/openai/" not in llm_url:\<close>
  add \<open>"/"\<close> unless the URL ends with it, then add \<open>"openai/"\<close>.
\<close>

definition add_openai_path :: "string \<Rightarrow> string" where
  "add_openai_path llm_url =
     (if contains llm_url gemini_host \<and> \<not> contains llm_url ''/openai/''
      then (if \<not> endswith llm_url ''/'' then llm_url @ ''/'' else llm_url) @ ''openai/''
      else llm_url)"

definition resolve :: "string \<Rightarrow> string" where
  "resolve llm_url =
     (if llm_url \<noteq> [] then add_openai_path (repair_ttp (add_scheme llm_url)) else llm_url)"

section \<open>Errors\<close>

text \<open>\<open>HTTPException(status_code, detail)\<close>, the error a handler answers with.\<close>

datatype http_error = HTTPException nat string

text \<open>
  The exceptions that can be raised inside the \<open>try\<close> block of \<open>generate_ui\<close>:
  \<open>choices[0]\<close> on an empty list, an attribute looked up on a value that has none
  (\<open>AttributeError t a\<close>: a value of type \<open>t\<close> asked for attribute \<open>a\<close>), and whatever the
  remote call raises, kept as its message. \<open>str_exn\<close> is Python's \<open>str(e)\<close>.
\<close>

datatype exn = IndexError | AttributeError string string | RemoteException string

fun str_exn :: "exn \<Rightarrow> string" where
  "str_exn IndexError = ''list index out of range''"
| "str_exn (AttributeError t a) =
     [CHR 0x27] @ t @ [CHR 0x27] @ '' object has no attribute '' @ [CHR 0x27] @ a @ [CHR 0x27]"
| "str_exn (RemoteException msg) = msg"

section \<open>The model list (\<open>get_models\<close>, both services)\<close>

text \<open>
  \<open>list_remote (api_key, base_url)\<close> stands for \<open>AsyncOpenAI(...).models.list()\<close>: the ids
  of the models in the order the service returns them, or the message of the exception
  raised. \<open>base_url\<close> is passed to the client only when the corrected URL is not empty.
\<close>

definition get_models ::
  "(string \<times> string option \<Rightarrow> string + string list) \<Rightarrow> string \<Rightarrow> string
     \<Rightarrow> http_error + string list" where
  "get_models list_remote llm_url api_key =
     (if llm_url = [] \<and> api_key = []
      then Inl (HTTPException 400 ''LLM URL or API Key is required.'')
      else
        let url = resolve llm_url;
            base_url = (if url \<noteq> [] then Some url else None)
        in case list_remote (api_key, base_url) of
             Inr ids \<Rightarrow> Inr ids
           | Inl error_msg \<Rightarrow>
               if contains error_msg ''base_url'' \<or> contains error_msg ''URL''
                  \<or> contains error_msg ''404''
               then Inl (HTTPException 400
                      (''Invalid LLM URL (Did you include /openai/ for Gemini?): '' @ error_msg))
               else Inl (HTTPException 500 error_msg))"

section \<open>Stored state\<close>

text \<open>
  The values that \<open>json.load\<close> can return and \<open>json.dump\<close> can write: \<open>None\<close>, booleans,
  integers, strings, lists, and dictionaries with string keys (an association list, in
  insertion order). Floating-point numbers are left out. A history entry is the
  dictionary with the keys \<open>intent\<close>, \<open>filename\<close>, \<open>time\<close> and \<open>model\<close> that \<open>generate_ui\<close>
  builds.
\<close>

datatype pyval =
    PNone
  | PBool bool
  | PInt int
  | PStr string
  | PList "pyval list"
  | PDict "(string \<times> pyval) list"

text \<open>
  The text of \<open>generated_logs/history.json\<close> is kept as what \<open>json.load\<close> makes of it:
  \<open>Document v\<close> is a text that decodes to \<open>v\<close>, \<open>Malformed\<close> a text on which \<open>json.load\<close>
  raises. \<open>json.dump(v, f)\<close> writes \<open>Document v\<close>. Opening and writing a file is taken to
  succeed.
\<close>

datatype json_text = Malformed | Document pyval

definition json_load :: "json_text \<Rightarrow> pyval option" where
  "json_load t = (case t of Malformed \<Rightarrow> None | Document v \<Rightarrow> Some v)"

text \<open>
  One call of \<open>client.chat.completions.create\<close>, with the arguments the client was built
  from: \<open>api_key\<close>, \<open>base_url\<close> (\<open>None\<close> when it is not passed), \<open>model\<close>, and the contents of
  the system and the user message. The temperature is 0.4 in every call. Building the
  client is taken to succeed.
\<close>

record chat_call =
  client_api_key :: string
  client_base_url :: "string option"
  create_model :: string
  system_content :: string
  user_content :: string

text \<open>
  The state the handlers work on: the history file (\<open>None\<close> when it does not exist), the
  other files under \<open>generated_logs\<close> by path, and the remote chat-completion calls made
  so far, oldest first.
\<close>

record world =
  history_file :: "json_text option"
  files :: "string \<rightharpoonup> string"
  calls :: "chat_call list"

definition LOG_DIR :: string where
  "LOG_DIR = ''generated_logs''"

text \<open>\<open>os.path.join(LOG_DIR, name)\<close> for a name that does not begin with \<open>/\<close>.\<close>

definition path_join :: "string \<Rightarrow> string \<Rightarrow> string" where
  "path_join dir name = dir @ ''/'' @ name"

definition HISTORY_FILE :: string where
  "HISTORY_FILE = path_join LOG_DIR ''history.json''"

section \<open>The history (\<open>load_history\<close>, \<open>save_history\<close>, both services)\<close>

text \<open>
  \<open>load_history\<close>: \<open>[]\<close> when the file does not exist; otherwise what \<open>json.load\<close> returns,
  and \<open>[]\<close> when it raises (the bare \<open>except\<close>).
\<close>

definition load_history :: "world \<Rightarrow> pyval" where
  "load_history w =
     (case history_file w of
        None \<Rightarrow> PList []
      | Some t \<Rightarrow> (case json_load t of Some v \<Rightarrow> v | None \<Rightarrow> PList []))"

text \<open>\<open>type(v).__name__\<close>\<close>

fun type_name :: "pyval \<Rightarrow> string" where
  "type_name PNone = ''NoneType''"
| "type_name (PBool b) = ''bool''"
| "type_name (PInt i) = ''int''"
| "type_name (PStr s) = ''str''"
| "type_name (PList xs) = ''list''"
| "type_name (PDict kvs) = ''dict''"

text \<open>
  \<open>save_history(entry)\<close>: \<open>history.insert(0, entry)\<close>, then \<open>json.dump(history[:100], f)\<close>.
  When the file decoded to a value that is not a list, \<open>insert\<close> raises.
\<close>

definition save_history :: "pyval \<Rightarrow> world \<Rightarrow> exn + world" where
  "save_history entry w =
     (case load_history w of
        PList history \<Rightarrow>
          Inr (w\<lparr>history_file := Some (Document (PList (take 100 (entry # history))))\<rparr>)
      | v \<Rightarrow> Inl (AttributeError (type_name v) ''insert''))"

text \<open>\<open>save_history\<close> called once for each entry of a list, in order.\<close>

fun save_history_all :: "pyval list \<Rightarrow> world \<Rightarrow> exn + world" where
  "save_history_all [] w = Inr w"
| "save_history_all (entry # entries) w =
     (case save_history entry w of
        Inl e \<Rightarrow> Inl e
      | Inr w' \<Rightarrow> save_history_all entries w')"

text \<open>\<open>d.get(k)\<close> on a dictionary.\<close>

fun dict_get :: "pyval \<Rightarrow> string \<Rightarrow> pyval option" where
  "dict_get (PDict kvs) k = map_of kvs k"
| "dict_get v k = None"

section \<open>Generation (\<open>generate_ui\<close>)\<close>

text \<open>
  The request body, after the defaults for missing fields have been filled in.
\<close>

record UIRequest =
  current_html :: string
  user_action :: string
  api_key :: string
  system_prompt :: string
  llm_url :: string
  model :: string

text \<open>
  The two readings of the clock in one request, as formatted by \<open>strftime\<close>:
  \<open>timestamp\<close> with \<open>%H:%M:%S\<close> and \<open>file_timestamp\<close> with \<open>%Y%m%d_%H%M%S\<close>.
\<close>

record readings =
  timestamp :: string
  file_timestamp :: string

text \<open>
  The remote service: for a call, the message of the exception it raises, or the
  \<open>message.content\<close> of each of the \<open>choices\<close> of its response (\<open>None\<close> for a choice without
  text).
\<close>

type_synonym remote = "chat_call \<Rightarrow> string + string option list"

text \<open>
  \<open>response.choices[0].message.content\<close>; \<open>.strip()\<close> on a content that is \<open>None\<close> raises.
\<close>

definition first_content :: "string option list \<Rightarrow> exn + string" where
  "first_content choices =
     (case choices of
        [] \<Rightarrow> Inl IndexError
      | None # _ \<Rightarrow> Inl (AttributeError ''NoneType'' ''strip'')
      | Some content # _ \<Rightarrow> Inr content)"

text \<open>
  \<open>generated_html = content.strip()\<close>, then
  \<open>generated_html.replace("```html", "").replace("```", "").strip()\<close>.
\<close>

definition sanitize :: "string \<Rightarrow> string" where
  "sanitize content = strip (replace (replace (strip content) ''```html'' []) ''```'' [])"

text \<open>\<open>filename = f"ui_{file_timestamp}.html"\<close>\<close>

definition artifact_name :: "readings \<Rightarrow> string" where
  "artifact_name now = ''ui_'' @ file_timestamp now @ ''.html''"

text \<open>The dictionary handed to \<open>save_history\<close>.\<close>

definition history_entry :: "UIRequest \<Rightarrow> readings \<Rightarrow> pyval" where
  "history_entry req now =
     PDict [(''intent'', PStr (user_action req)),
            (''filename'', PStr (artifact_name now)),
            (''time'', PStr (timestamp now)),
            (''model'', PStr (model req))]"

text \<open>
  The end of the \<open>try\<close> block, the same in both services but for the document written:
  the file \<open>filepath\<close> is written, the entry is handed to \<open>save_history\<close>, and the HTML is
  the result. When \<open>save_history\<close> raises, the file has been written.
\<close>

definition log_and_return ::
  "(string \<Rightarrow> string) \<Rightarrow> readings \<Rightarrow> UIRequest \<Rightarrow> string \<Rightarrow> world \<Rightarrow> (exn + string) \<times> world" where
  "log_and_return log_content now req generated_html w =
     (let filename = artifact_name now;
          filepath = path_join LOG_DIR filename;
          w1 = w\<lparr>files := (files w)(filepath \<mapsto> log_content generated_html)\<rparr>
      in case save_history (history_entry req now) w1 of
           Inl e \<Rightarrow> (Inl e, w1)
         | Inr w2 \<Rightarrow> (Inr generated_html, w2))"

text \<open>
  The \<open>try\<close> block with its \<open>except Exception\<close>: the call is made; an exception raised
  anywhere in the block becomes the error 500 with \<open>str(e)\<close> as its detail, and the state
  stays as the block left it.
\<close>

definition try_generate ::
  "(string \<Rightarrow> string) \<Rightarrow> remote \<Rightarrow> readings \<Rightarrow> UIRequest \<Rightarrow> chat_call \<Rightarrow> world
     \<Rightarrow> (http_error + string) \<times> world" where
  "try_generate log_content remote now req call w =
     (let w1 = w\<lparr>calls := calls w @ [call]\<rparr>;
          (res, w2) =
            (case remote call of
               Inl msg \<Rightarrow> (Inl (RemoteException msg), w1)
             | Inr choices \<Rightarrow>
                 (case first_content choices of
                    Inl e \<Rightarrow> (Inl e, w1)
                  | Inr content \<Rightarrow> log_and_return log_content now req (sanitize content) w1))
      in case res of
           Inl e \<Rightarrow> (Inl (HTTPException 500 (str_exn e)), w2)
         | Inr html \<Rightarrow> (Inr html, w2))"

subsection \<open>\<open>main.py\<close>\<close>

text \<open>
  The texts are the source's string literals, one line of the source on each line. The
  request is refused only when the key and the URL are both empty; \<open>base_url\<close> is passed
  when the URL is not empty, and an empty model name is replaced by \<open>gpt-4o\<close> in the call.
\<close>

definition main_DEFAULT_SYSTEM_PROMPT :: string where
  \<open>main_DEFAULT_SYSTEM_PROMPT =
     ''\<newline>'' @
     ''    You are an expert Senior UI/UX Engineer specialized in modern SaaS dashboards and web applications.\<newline>'' @
     ''    Your goal is to generate extremely high-quality, professional, and visually stunning HTML components using Tailwind CSS.\<newline>'' @
     ''\<newline>'' @
     ''    [STRICT OUTPUT RULES]\<newline>'' @
     ''    1. Return ONLY raw HTML code. \<newline>'' @
     ''    2. NO markdown formatting (DO NOT use ```html or ```).\<newline>'' @
     ''    3. NO explanation or conversational text.\<newline>'' @
     ''    4. Use Tailwind CSS for all styling. Use vibrant colors, glassmorphism, and modern shadows.\<newline>'' @
     ''    5. The UI must be responsive and feel "alive" (hover effects, smooth transitions).\<newline>'' @
     ''    6. All interactive elements (buttons, links) should look clickable but DO NOT include custom JavaScript functions or `onclick` handlers.\<newline>'' @
     ''    7. If the user interaction says "User pushed [Button Name] button", interpret this as a navigation or state change request and generate the corresponding NEXT screen.\<newline>'' @
     ''    ''\<close>

definition main_user_prompt :: "UIRequest \<Rightarrow> string" where
  \<open>main_user_prompt req =
     ''\<newline>'' @
     ''    [User Action/Intent]: '' @ user_action req @
     ''\<newline>'' @
     ''    \<newline>'' @
     ''    [Current HTML Context]:\<newline>'' @
     ''    ```html\<newline>'' @
     ''    '' @ take 5000 (current_html req) @
     ''\<newline>'' @
     ''    ```\<newline>'' @
     ''    \<newline>'' @
     ''    Update the UI based on the user's action. Maintain consistent branding and layout.\<newline>'' @
     ''    ''\<close>

definition main_log_content :: "string \<Rightarrow> string" where
  \<open>main_log_content generated_html =
     ''<!DOCTYPE html>\<newline>'' @
     ''<html>\<newline>'' @
     ''<head>\<newline>'' @
     ''    <meta charset="UTF-8">\<newline>'' @
     ''    <script src="https://cdn.tailwindcss.com"></script>\<newline>'' @
     ''    <link href="https://fonts.googleapis.com/css2?family=Inter:wght@400;600;700&display=swap" rel="stylesheet">\<newline>'' @
     ''    <style>body { font-family: 'Inter', sans-serif; }</style>\<newline>'' @
     ''</head>\<newline>'' @
     ''<body class="p-10 bg-slate-50">\<newline>'' @
     ''    '' @ generated_html @
     ''\<newline>'' @
     ''</body>\<newline>'' @
     ''</html>\<newline>''\<close>

definition main_call :: "UIRequest \<Rightarrow> chat_call" where
  "main_call req =
     \<lparr>client_api_key = api_key req,
      client_base_url = (if llm_url req \<noteq> [] then Some (llm_url req) else None),
      create_model = (if model req \<noteq> [] then model req else ''gpt-4o''),
      system_content =
        (if system_prompt req \<noteq> [] then system_prompt req else main_DEFAULT_SYSTEM_PROMPT),
      user_content = main_user_prompt req\<rparr>"

definition main_generate_ui ::
  "remote \<Rightarrow> readings \<Rightarrow> UIRequest \<Rightarrow> world \<Rightarrow> (http_error + string) \<times> world" where
  "main_generate_ui remote now req w =
     (if api_key req = [] \<and> llm_url req = []
      then (Inl (HTTPException 400 ''API Key or Local LLM URL is required.''), w)
      else try_generate main_log_content remote now req (main_call req) w)"

subsection \<open>\<open>gemini_app.py\<close>\<close>

text \<open>
  The request is refused when the key is empty; \<open>base_url\<close> and the model name are passed
  as they are.
\<close>

definition gemini_DEFAULT_SYSTEM_PROMPT :: string where
  \<open>gemini_DEFAULT_SYSTEM_PROMPT =
     ''\<newline>'' @
     ''    You are an expert Senior UI/UX Engineer specialized in modern SaaS dashboards and web applications.\<newline>'' @
     ''    Your goal is to generate extremely high-quality, professional, and visually stunning HTML components using Tailwind CSS.\<newline>'' @
     ''    Use vibrant colors, glassmorphism, and modern shadows.\<newline>'' @
     ''    \<newline>'' @
     ''    [STRICT OUTPUT RULES]\<newline>'' @
     ''    1. Return ONLY raw HTML code. \<newline>'' @
     ''    2. NO markdown formatting.\<newline>'' @
     ''    3. NO explanation.\<newline>'' @
     ''    ''\<close>

definition gemini_user_prompt :: "UIRequest \<Rightarrow> string" where
  \<open>gemini_user_prompt req =
     ''\<newline>'' @
     ''    [User Action/Intent]: '' @ user_action req @
     ''\<newline>'' @
     ''    [Current HTML Context]:\<newline>'' @
     ''    '' @ take 5000 (current_html req) @
     ''\<newline>'' @
     ''    \<newline>'' @
     ''    Update the UI based on the user's action.\<newline>'' @
     ''    ''\<close>

definition gemini_log_content :: "string \<Rightarrow> string" where
  \<open>gemini_log_content generated_html =
     ''<!DOCTYPE html><html><head><script src='https://cdn.tailwindcss.com'></script></head><body>''
     @ generated_html @ ''</body></html>''\<close>

definition gemini_call :: "UIRequest \<Rightarrow> chat_call" where
  "gemini_call req =
     \<lparr>client_api_key = api_key req,
      client_base_url = Some (llm_url req),
      create_model = model req,
      system_content =
        (if system_prompt req \<noteq> [] then system_prompt req else gemini_DEFAULT_SYSTEM_PROMPT),
      user_content = gemini_user_prompt req\<rparr>"

definition gemini_generate_ui ::
  "remote \<Rightarrow> readings \<Rightarrow> UIRequest \<Rightarrow> world \<Rightarrow> (http_error + string) \<times> world" where
  "gemini_generate_ui remote now req w =
     (if api_key req = []
      then (Inl (HTTPException 400 ''Gemini API Key is required.''), w)
      else try_generate gemini_log_content remote now req (gemini_call req) w)"


section \<open>A sample request\<close>

text \<open>
  A request with an API key and an empty model name, a clock, an empty store, and a remote
  service that answers every call with one fenced HTML fragment. The theorems below are
  instantiated with them.
\<close>

definition sample_request :: UIRequest where
  "sample_request =
     \<lparr>current_html = ''<p>old</p>'', user_action = ''User pushed Save button'',
      api_key = ''sk-test'', system_prompt = [], llm_url = [], model = []\<rparr>"

definition sample_now :: readings where
  "sample_now = \<lparr>timestamp = ''12:30:05'', file_timestamp = ''20240102_123005''\<rparr>"

definition empty_world :: world where
  "empty_world = \<lparr>history_file = None, files = Map.empty, calls = []\<rparr>"

definition sample_remote :: remote where
  "sample_remote call = Inr [Some ''```html\<newline><p>new</p>\<newline>```'']"

section \<open>Facts about the string operations\<close>

lemma startswith_iff: "startswith s p \<longleftrightarrow> (\<exists>r. s = p @ r)"
  by (induction s p rule: startswith.induct) auto

lemma startswith_append: "startswith s p \<Longrightarrow> startswith (s @ t) p"
  by (auto simp: startswith_iff)

lemma endswith_iff: "endswith s p \<longleftrightarrow> (\<exists>r. s = r @ p)"
proof
  assume "endswith s p"
  then obtain r where "rev s = rev p @ r"
    by (auto simp: endswith_def startswith_iff)
  then have "s = rev r @ p"
    by (metis rev_append rev_rev_ident)
  then show "\<exists>r. s = r @ p" ..
next
  assume "\<exists>r. s = r @ p"
  then show "endswith s p"
    by (auto simp: endswith_def startswith_iff)
qed

lemma contains_iff: "contains s sub \<longleftrightarrow> (\<exists>a b. s = a @ sub @ b)"
proof (induction s)
  case Nil
  then show ?case by auto
next
  case (Cons c cs)
  show ?case
  proof
    assume "contains (c # cs) sub"
    then consider "startswith (c # cs) sub" | "contains cs sub" by auto
    then show "\<exists>a b. c # cs = a @ sub @ b"
    proof cases
      case 1
      then obtain r where "c # cs = [] @ sub @ r" by (auto simp: startswith_iff)
      then show ?thesis by blast
    next
      case 2
      then obtain a b where "cs = a @ sub @ b" using Cons.IH by auto
      then have "c # cs = (c # a) @ sub @ b" by simp
      then show ?thesis by blast
    qed
  next
    assume "\<exists>a b. c # cs = a @ sub @ b"
    then obtain a b where ab: "c # cs = a @ sub @ b" by auto
    show "contains (c # cs) sub"
    proof (cases a)
      case Nil
      with ab have "startswith (c # cs) sub" by (auto simp: startswith_iff)
      then show ?thesis by simp
    next
      case (Cons x a')
      with ab have "cs = a' @ sub @ b" by simp
      then have "contains cs sub" using Cons.IH by auto
      then show ?thesis by simp
    qed
  qed
qed

lemma contains_sublist: "contains s sub \<longleftrightarrow> sublist sub s"
  by (auto simp: contains_iff sublist_def)

text \<open>
  Removing the fence \<open>```\<close> by \<open>replace\<close> leaves no fence behind: what is left of a run of
  backquotes is shorter than three.
\<close>

lemma fence_start1: "startswith (replace_from ''```'' [] s) ''`'' \<Longrightarrow> startswith s ''`''"
  by (cases s) (auto split: if_splits)

lemma fence_start2:
  assumes "startswith (replace_from ''```'' [] s) ''``''"
  shows "startswith s ''``''"
proof (cases "startswith s ''```''")
  case True
  then obtain r where "s = ''```'' @ r" by (auto simp: startswith_iff)
  then have "s = ''``'' @ (CHR 0x60 # r)" by simp
  then show ?thesis unfolding startswith_iff by blast
next
  case False
  show ?thesis
  proof (cases s)
    case Nil
    with assms show ?thesis by simp
  next
    case (Cons c cs)
    with False have "replace_from ''```'' [] s = c # replace_from ''```'' [] cs" by auto
    with assms have "c = CHR 0x60" and "startswith (replace_from ''```'' [] cs) ''`''"
      by simp_all
    then show ?thesis using Cons fence_start1 [of cs] by simp
  qed
qed

lemma fence_start3: "\<not> startswith (replace_from ''```'' [] s) ''```''"
proof (induction "''```''" "[] :: string" s rule: replace_from.induct)
  case 1
  then show ?case by simp
next
  case (2 c cs)
  show ?case
  proof (cases "startswith (c # cs) ''```''")
    case True
    then show ?thesis using 2 by simp
  next
    case False
    then show ?thesis by (auto dest: fence_start2)
  qed
qed

lemma replace_from_no_fence: "\<not> contains (replace_from ''```'' [] s) ''```''"
proof (induction "''```''" "[] :: string" s rule: replace_from.induct)
  case 1
  then show ?case by simp
next
  case (2 c cs)
  show ?case
  proof (cases "startswith (c # cs) ''```''")
    case True
    then show ?thesis using 2 by simp
  next
    case False
    then have eq: "replace_from ''```'' [] (c # cs) = c # replace_from ''```'' [] cs"
      by auto
    have "\<not> startswith (c # replace_from ''```'' [] cs) ''```''"
      using fence_start3 [of "c # cs"] unfolding eq .
    moreover have "\<not> contains (replace_from ''```'' [] cs) ''```''"
      using False by (intro 2) simp
    ultimately show ?thesis unfolding eq by simp
  qed
qed

lemma replace_from_absent: "\<not> contains s old \<Longrightarrow> replace_from old new s = s"
  by (induction s) auto

lemma contains_strip: "contains (strip s) sub \<Longrightarrow> contains s sub"
proof -
  assume "contains (strip s) sub"
  then have "sublist (rev sub) (dropWhile isspace (rev (dropWhile isspace s)))"
    by (simp add: contains_sublist strip_def sublist_rev_right)
  moreover have "suffix (dropWhile isspace (rev (dropWhile isspace s))) (rev (dropWhile isspace s))"
    by (rule suffix_dropWhile)
  ultimately have "sublist (rev sub) (rev (dropWhile isspace s))"
    by (meson suffix_imp_sublist sublist_order.order_trans)
  then have "sublist sub (dropWhile isspace s)" by (simp add: sublist_rev)
  moreover have "suffix (dropWhile isspace s) s" by (rule suffix_dropWhile)
  ultimately have "sublist sub s"
    by (meson suffix_imp_sublist sublist_order.order_trans)
  then show ?thesis by (simp add: contains_sublist)
qed

lemma contains_html_fence: "contains s ''```html'' \<Longrightarrow> contains s ''```''"
proof -
  assume "contains s ''```html''"
  then obtain a b where "s = a @ ''```html'' @ b" by (auto simp: contains_iff)
  then have "s = a @ ''```'' @ (''html'' @ b)" by simp
  then show ?thesis unfolding contains_iff by blast
qed

lemma lstrip_rstrip:
  assumes "t = [] \<or> \<not> P (hd t)"
  shows "dropWhile P (rev (dropWhile P (rev t))) = rev (dropWhile P (rev t))"
proof (cases t)
  case Nil
  then show ?thesis by simp
next
  case (Cons x t')
  with assms have nx: "\<not> P x" by simp
  have "\<exists>z. dropWhile P (rev t' @ [x]) = z @ [x]"
  proof (cases "\<forall>y\<in>set (rev t'). P y")
    case True
    then have "dropWhile P (rev t' @ [x]) = [] @ [x]" using nx by (simp add: dropWhile_append)
    then show ?thesis by blast
  next
    case False
    then have "dropWhile P (rev t' @ [x]) = dropWhile P (rev t') @ [x]"
      by (simp add: dropWhile_append)
    then show ?thesis by blast
  qed
  then obtain z where "dropWhile P (rev t' @ [x]) = z @ [x]" by blast
  then show ?thesis using nx unfolding Cons by simp
qed

lemma strip_strip: "strip (strip s) = strip s"
proof -
  have "dropWhile isspace s = [] \<or> \<not> isspace (hd (dropWhile isspace s))"
    using hd_dropWhile [of isspace s] by blast
  then have "dropWhile isspace (rev (dropWhile isspace (rev (dropWhile isspace s)))) =
             rev (dropWhile isspace (rev (dropWhile isspace s)))"
    by (rule lstrip_rstrip)
  then show ?thesis
    unfolding strip_def by simp
qed

text \<open>
  Whitespace around the content passes through both calls of \<open>replace\<close> untouched, so the
  first \<open>strip\<close> of the cleanup changes nothing in its result.
\<close>

lemma startswith_appendD:
  assumes "startswith (p @ x) q" and "x = [] \<or> hd x \<notin> set q"
  shows "startswith p q"
  using assms
proof (induction q arbitrary: p)
  case Nil
  then show ?case by simp
next
  case (Cons a q)
  show ?case
  proof (cases p)
    case Nil
    with Cons.prems show ?thesis by (cases x) auto
  next
    case (Cons c p')
    with Cons.prems have "c = a" and "startswith (p' @ x) q" by simp_all
    moreover have "x = [] \<or> hd x \<notin> set q" using Cons.prems(2) by auto
    ultimately show ?thesis using Cons.IH [of p'] Cons by simp
  qed
qed

lemma replace_from_copy:
  assumes "hd old \<notin> set p"
  shows "replace_from old [] (p @ s) = p @ replace_from old [] s"
  using assms
proof (induction p)
  case Nil
  then show ?case by simp
next
  case (Cons c p)
  then have "\<not> (old \<noteq> [] \<and> startswith (c # p @ s) old)"
    by (cases old) auto
  then show ?case using Cons by auto
qed

lemma replace_from_tail:
  "set r \<inter> set old = {} \<Longrightarrow> replace_from old [] (a @ r) = replace_from old [] a @ r"
proof (induction old "[] :: string" a rule: replace_from.induct)
  case (1 old)
  show ?case
  proof (cases old)
    case Nil
    then show ?thesis by (induction r) simp_all
  next
    case (Cons b old')
    then have "hd old \<notin> set r" using 1 by auto
    from replace_from_copy [OF this, of "[]"] show ?thesis by simp
  qed
next
  case (2 old c cs)
  have hx: "r = [] \<or> hd r \<notin> set old" using 2(3) by (cases r) auto
  show ?case
  proof (cases "old \<noteq> [] \<and> startswith (c # cs) old")
    case True
    then obtain t where t: "c # cs = old @ t" by (auto simp: startswith_iff)
    then have "startswith ((c # cs) @ r) old" by (simp add: startswith_iff)
    moreover have "drop (length old) ((c # cs) @ r) = drop (length old) (c # cs) @ r"
      using t by simp
    ultimately show ?thesis using True 2(1) [OF True 2(3)] by simp
  next
    case False
    then have "\<not> (old \<noteq> [] \<and> startswith ((c # cs) @ r) old)"
      using startswith_appendD [OF _ hx, of "c # cs"] by blast
    then show ?thesis using False 2(2) [OF False 2(3)] by auto
  qed
qed

lemma isspace_not_fence: "isspace c \<Longrightarrow> c \<notin> set ''```html''"
  by (auto simp: isspace_def)

lemma strip_padded:
  assumes "\<forall>c\<in>set l. isspace c" and "\<forall>c\<in>set r. isspace c"
  shows "strip (l @ z @ r) = strip z"
proof -
  have 1: "dropWhile isspace (l @ z @ r) = dropWhile isspace (z @ r)"
    using assms(1) by (simp add: dropWhile_append2)
  have 2: "rev (dropWhile isspace (rev (y @ r))) = rev (dropWhile isspace (rev y))" for y
  proof -
    have "dropWhile isspace (rev r @ rev y) = dropWhile isspace (rev y)"
      by (rule dropWhile_append2) (use assms(2) in auto)
    then show ?thesis by simp
  qed
  show ?thesis
  proof (cases "\<forall>c\<in>set z. isspace c")
    case True
    then have a: "dropWhile isspace (z @ r) = []" and b: "dropWhile isspace z = []"
      using assms(2) by auto
    show ?thesis unfolding strip_def 1 a b by (rule refl)
  next
    case False
    then have "dropWhile isspace (z @ r) = dropWhile isspace z @ r"
      by (auto simp: dropWhile_append)
    then show ?thesis using 2 [of "dropWhile isspace z"] unfolding strip_def 1 by (simp only:)
  qed
qed

lemma strip_padding:
  "\<exists>l r. s = l @ strip s @ r \<and> (\<forall>c\<in>set l. isspace c) \<and> (\<forall>c\<in>set r. isspace c)"
proof -
  let ?l = "takeWhile isspace s"
  let ?y = "dropWhile isspace s"
  let ?r = "rev (takeWhile isspace (rev ?y))"
  have "rev (takeWhile isspace (rev ?y) @ dropWhile isspace (rev ?y)) =
          rev (dropWhile isspace (rev ?y)) @ rev (takeWhile isspace (rev ?y))"
    by (rule rev_append)
  moreover have "takeWhile isspace (rev ?y) @ dropWhile isspace (rev ?y) = rev ?y"
    by (rule takeWhile_dropWhile_id)
  ultimately have "rev (rev ?y) =
          rev (dropWhile isspace (rev ?y)) @ rev (takeWhile isspace (rev ?y))"
    by (simp only:)
  then have "?y = strip s @ ?r" by (simp only: rev_rev_ident strip_def)
  then have "s = ?l @ strip s @ ?r" by (metis takeWhile_dropWhile_id)
  moreover have "\<forall>c\<in>set ?l. isspace c" by (auto dest: set_takeWhileD)
  moreover have "\<forall>c\<in>set ?r. isspace c" by (auto dest: set_takeWhileD)
  ultimately show ?thesis by blast
qed

lemma replace_from_padded:
  assumes "\<forall>c\<in>set l. isspace c" and "\<forall>c\<in>set r. isspace c" and "set old \<subseteq> set ''```html''"
    and "hd old = CHR 0x60"
  shows "replace_from old [] (l @ z @ r) = l @ replace_from old [] z @ r"
proof -
  have "hd old \<notin> set l" using assms(1,4) isspace_not_fence by fastforce
  then have "replace_from old [] (l @ z @ r) = l @ replace_from old [] (z @ r)"
    by (rule replace_from_copy)
  moreover have "set r \<inter> set old = {}" using assms(2,3) isspace_not_fence by blast
  then have "replace_from old [] (z @ r) = replace_from old [] z @ r"
    by (rule replace_from_tail)
  ultimately show ?thesis by simp
qed

lemma sanitize_eq:
  "sanitize s = strip (replace_from ''```'' [] (replace_from ''```html'' [] s))"
proof -
  obtain l r where s: "s = l @ strip s @ r"
    and l: "\<forall>c\<in>set l. isspace c" and r: "\<forall>c\<in>set r. isspace c"
    using strip_padding by blast
  have "replace_from ''```html'' [] (l @ strip s @ r) = l @ replace_from ''```html'' [] (strip s) @ r"
    using l r by (rule replace_from_padded) simp_all
  moreover have "replace_from ''```'' [] (l @ replace_from ''```html'' [] (strip s) @ r)
      = l @ replace_from ''```'' [] (replace_from ''```html'' [] (strip s)) @ r"
    using l r by (rule replace_from_padded) simp_all
  ultimately have "replace_from ''```'' [] (replace_from ''```html'' [] (l @ strip s @ r))
      = l @ replace_from ''```'' [] (replace_from ''```html'' [] (strip s)) @ r"
    by simp
  then have "strip (replace_from ''```'' [] (replace_from ''```html'' [] (l @ strip s @ r)))
      = strip (replace_from ''```'' [] (replace_from ''```html'' [] (strip s)))"
    using strip_padded [OF l r] by simp
  then show ?thesis using s by (simp add: sanitize_def replace_def)
qed

text \<open>
  A content built from pieces without a backquote, each piece after the first led by a
  marker: the first \<open>replace\<close> removes the \<open>```html\<close> markers and keeps the \<open>```\<close> markers,
  the second removes those.
\<close>

lemma fence_kept:
  assumes "CHR 0x60 \<notin> set p" and "\<not> startswith p ''html''"
    and "x = [] \<or> startswith x ''```''"
  shows "replace_from ''```html'' [] (''```'' @ p @ x) = ''```'' @ p @ replace_from ''```html'' [] x"
proof -
  have "x = [] \<or> hd x \<notin> set ''html''"
    using assms(3) by (auto simp: startswith_iff)
  then have nh: "\<not> startswith (p @ x) ''html''"
    using assms(2) startswith_appendD by blast
  show ?thesis
  proof (cases p)
    case Nil
    from assms(3) show ?thesis
    proof
      assume "x = []"
      then show ?thesis using Nil by simp
    next
      assume "startswith x ''```''"
      then obtain y where "x = ''```'' @ y" by (auto simp: startswith_iff)
      then show ?thesis using Nil by simp
    qed
  next
    case (Cons c p')
    then have c: "c \<noteq> CHR 0x60" using assms(1) by auto
    have "hd ''```html'' \<notin> set p" using assms(1) by simp
    then have "replace_from ''```html'' [] (p @ x) = p @ replace_from ''```html'' [] x"
      by (rule replace_from_copy)
    then show ?thesis using nh c Cons by auto
  qed
qed

lemma fenced_start:
  assumes "\<forall>(fence, piece)\<in>set rest. fence = ''```html'' \<or> fence = ''```''"
  shows "concat (map (\<lambda>(fence, piece). fence @ piece) rest) = []
         \<or> startswith (concat (map (\<lambda>(fence, piece). fence @ piece) rest)) ''```''"
proof (cases rest)
  case Nil
  then show ?thesis by simp
next
  case (Cons a rest')
  obtain f p where a: "a = (f, p)" by (cases a)
  with assms Cons have "f = ''```html'' \<or> f = ''```''" by auto
  then show ?thesis using Cons a by auto
qed

lemma replace_html_fences:
  assumes "\<forall>(fence, piece)\<in>set rest.
             (fence = ''```html'' \<or> fence = ''```'' \<and> \<not> startswith piece ''html'')
             \<and> CHR 0x60 \<notin> set piece"
  shows "replace_from ''```html'' [] (concat (map (\<lambda>(fence, piece). fence @ piece) rest)) =
         concat (map (\<lambda>(fence, piece). (if fence = ''```html'' then [] else ''```'') @ piece) rest)"
  using assms
proof (induction rest)
  case Nil
  then show ?case by simp
next
  case (Cons a rest)
  obtain f p where a: "a = (f, p)" by (cases a)
  let ?x = "concat (map (\<lambda>(fence, piece). fence @ piece) rest)"
  have p: "CHR 0x60 \<notin> set p" using Cons.prems a by auto
  have f: "f = ''```html'' \<or> f = ''```'' \<and> \<not> startswith p ''html''"
    using Cons.prems a by auto
  have ih: "replace_from ''```html'' [] ?x =
         concat (map (\<lambda>(fence, piece). (if fence = ''```html'' then [] else ''```'') @ piece) rest)"
    using Cons by auto
  have copy: "replace_from ''```html'' [] (p @ ?x) = p @ replace_from ''```html'' [] ?x"
    by (rule replace_from_copy) (use p in simp)
  from f show ?case
  proof
    assume "f = ''```html''"
    then show ?thesis using a ih copy by simp
  next
    assume n: "f = ''```'' \<and> \<not> startswith p ''html''"
    have "?x = [] \<or> startswith ?x ''```''"
      by (rule fenced_start) (use Cons.prems in auto)
    with p n have "replace_from ''```html'' [] (''```'' @ p @ ?x) =
        ''```'' @ p @ replace_from ''```html'' [] ?x"
      by (intro fence_kept) auto
    then show ?thesis using a n ih by simp
  qed
qed

lemma replace_plain_fences:
  assumes "\<forall>(fence, piece)\<in>set rest. CHR 0x60 \<notin> set piece"
  shows "replace_from ''```'' []
           (concat (map (\<lambda>(fence, piece). (if fence = ''```html'' then [] else ''```'') @ piece) rest))
         = concat (map snd rest)"
  using assms
proof (induction rest)
  case Nil
  then show ?case by simp
next
  case (Cons a rest)
  obtain f p where a: "a = (f, p)" by (cases a)
  let ?x = "concat (map (\<lambda>(fence, piece). (if fence = ''```html'' then [] else ''```'') @ piece) rest)"
  have p: "CHR 0x60 \<notin> set p" using Cons.prems a by auto
  have ih: "replace_from ''```'' [] ?x = concat (map snd rest)" using Cons by auto
  have copy: "replace_from ''```'' [] (p @ ?x) = p @ replace_from ''```'' [] ?x"
    by (rule replace_from_copy) (use p in simp)
  show ?case using a ih copy by simp
qed

section \<open>Facts about the URL correction\<close>

lemma add_scheme_http: "startswith (add_scheme u) ''http''"
  by (simp add: add_scheme_def)

text \<open>
  The statement for the \<open>ttp\<close> typo runs after the scheme has been added, when the URL
  already starts with \<open>http\<close>: it never changes anything.
\<close>

lemma repair_ttp_after_add_scheme: "repair_ttp (add_scheme u) = add_scheme u"
proof -
  obtain r where "add_scheme u = ''http'' @ r"
    using add_scheme_http [of u] by (auto simp: startswith_iff)
  then show ?thesis by (simp add: repair_ttp_def)
qed

lemma resolve_eq: "resolve u = (if u = [] then [] else add_openai_path (add_scheme u))"
  by (simp add: resolve_def repair_ttp_after_add_scheme)

lemma add_scheme_idem: "startswith u ''http'' \<Longrightarrow> add_scheme u = u"
  by (simp add: add_scheme_def)

lemma add_openai_path_http: "startswith u ''http'' \<Longrightarrow> startswith (add_openai_path u) ''http''"
  by (auto simp: add_openai_path_def intro: startswith_append)

lemma add_openai_path_nonempty: "u \<noteq> [] \<Longrightarrow> add_openai_path u \<noteq> []"
  by (simp add: add_openai_path_def)

lemma contains_openai_appended:
  "contains ((if \<not> endswith u ''/'' then u @ ''/'' else u) @ ''openai/'') ''/openai/''"
proof (cases "endswith u ''/''")
  case True
  then obtain r where "u = r @ ''/''" by (auto simp: endswith_iff)
  then have "u @ ''openai/'' = r @ ''/openai/'' @ []" by simp
  then have "contains (u @ ''openai/'') ''/openai/''"
    unfolding contains_iff by blast
  with True show ?thesis by simp
next
  case False
  have "(u @ ''/'') @ ''openai/'' = u @ ''/openai/'' @ []" by simp
  then have "contains ((u @ ''/'') @ ''openai/'') ''/openai/''"
    unfolding contains_iff by blast
  with False show ?thesis by simp
qed

lemma add_openai_path_idem: "add_openai_path (add_openai_path u) = add_openai_path u"
proof (cases "contains u gemini_host \<and> \<not> contains u ''/openai/''")
  case True
  then have "add_openai_path u = (if \<not> endswith u ''/'' then u @ ''/'' else u) @ ''openai/''"
    by (simp add: add_openai_path_def)
  then have "contains (add_openai_path u) ''/openai/''"
    using contains_openai_appended [of u] by simp
  then show ?thesis by (simp add: add_openai_path_def [of "add_openai_path u"])
next
  case False
  then have "add_openai_path u = u" by (auto simp: add_openai_path_def)
  then show ?thesis by simp
qed

lemma resolve_idem: "resolve (resolve u) = resolve u"
proof (cases "u = []")
  case True
  then show ?thesis by (simp add: resolve_def)
next
  case False
  let ?w = "add_openai_path (add_scheme u)"
  have w: "resolve u = ?w" using False by (simp add: resolve_eq)
  have ne: "?w \<noteq> []"
    using add_scheme_http [of u] by (intro add_openai_path_nonempty) auto
  have "startswith ?w ''http''"
    by (rule add_openai_path_http [OF add_scheme_http])
  then have "add_scheme ?w = ?w" by (rule add_scheme_idem)
  then have "resolve ?w = add_openai_path ?w" using ne by (simp add: resolve_eq)
  then show ?thesis using w by (simp add: add_openai_path_idem)
qed

section \<open>Facts about the history\<close>

lemma load_history_files [simp]: "load_history (w\<lparr>files := f\<rparr>) = load_history w"
  by (simp add: load_history_def)

lemma load_history_calls [simp]: "load_history (w\<lparr>calls := c\<rparr>) = load_history w"
  by (simp add: load_history_def)

lemma load_history_written [simp]:
  "load_history (w\<lparr>history_file := Some (Document v)\<rparr>) = v"
  by (simp add: load_history_def json_load_def)

lemma save_history_list:
  "load_history w = PList h \<Longrightarrow>
   save_history e w = Inr (w\<lparr>history_file := Some (Document (PList (take 100 (e # h))))\<rparr>)"
  by (simp add: save_history_def)

lemma save_history_Inr:
  assumes "save_history e w = Inr w'"
  shows "\<exists>h. load_history w = PList h
             \<and> w' = w\<lparr>history_file := Some (Document (PList (take 100 (e # h))))\<rparr>"
  using assms by (auto simp: save_history_def split: pyval.splits)

lemma take_append_take: "take n (xs @ take n ys) = take n (xs @ ys)"
  by (simp add: min_def)

lemma save_history_all_list:
  "load_history w = PList h \<Longrightarrow>
   \<exists>w'. save_history_all es w = Inr w'
        \<and> load_history w' = PList (if es = [] then h else take 100 (rev es @ h))"
proof (induction es arbitrary: w h)
  case Nil
  then show ?case by simp
next
  case (Cons e es)
  let ?w1 = "w\<lparr>history_file := Some (Document (PList (take 100 (e # h))))\<rparr>"
  have s: "save_history e w = Inr ?w1" using Cons.prems by (rule save_history_list)
  have "load_history ?w1 = PList (take 100 (e # h))" by simp
  from Cons.IH [OF this] obtain w' where
    w': "save_history_all es ?w1 = Inr w'"
        "load_history w' =
           PList (if es = [] then take 100 (e # h) else take 100 (rev es @ take 100 (e # h)))"
    by blast
  have "take 100 (rev es @ take 100 (e # h)) = take 100 (rev (e # es) @ h)"
    by (simp only: take_append_take) simp
  then have "(if es = [] then take 100 (e # h) else take 100 (rev es @ take 100 (e # h)))
             = take 100 (rev (e # es) @ h)"
    by (cases "es = []") simp_all
  with w' s show ?case by simp
qed

lemma empty_world_history: "load_history empty_world = PList []"
  by (simp add: load_history_def empty_world_def)

section \<open>Facts about generation\<close>

text \<open>
  The file that \<open>generate_ui\<close> writes is never the history file, which is why the state
  keeps the two apart.
\<close>

lemma artifact_path_not_history: "path_join LOG_DIR (artifact_name now) \<noteq> HISTORY_FILE"
  by (simp add: path_join_def artifact_name_def HISTORY_FILE_def)

lemma log_and_return_calls:
  "log_and_return log_content now req html w1 = (r, w2) \<Longrightarrow> calls w2 = calls w1"
  by (auto simp: log_and_return_def Let_def save_history_def split: sum.splits pyval.splits)

lemma try_generate_calls:
  "calls (snd (try_generate log_content remote now req call w)) = calls w @ [call]"
  unfolding try_generate_def Let_def
  by (auto split: sum.splits prod.splits dest: log_and_return_calls)

lemma log_and_return_list:
  assumes "load_history w = PList h"
  shows "log_and_return log_content now req html w =
           (Inr html,
            w\<lparr>files := (files w)(path_join LOG_DIR (artifact_name now) \<mapsto> log_content html),
              history_file := Some (Document (PList (take 100 (history_entry req now # h))))\<rparr>)"
proof -
  let ?w1 = "w\<lparr>files := (files w)(path_join LOG_DIR (artifact_name now) \<mapsto> log_content html)\<rparr>"
  have "load_history ?w1 = PList h" using assms by simp
  then have "save_history (history_entry req now) ?w1 =
      Inr (?w1\<lparr>history_file := Some (Document (PList (take 100 (history_entry req now # h))))\<rparr>)"
    by (rule save_history_list)
  then show ?thesis by (simp add: log_and_return_def Let_def)
qed

lemma try_generate_success:
  assumes "remote call = Inr (Some content # others)" and "load_history w = PList h"
  shows "try_generate log_content remote now req call w =
           (Inr (sanitize content),
            w\<lparr>calls := calls w @ [call],
              files := (files w)(path_join LOG_DIR (artifact_name now)
                                   \<mapsto> log_content (sanitize content)),
              history_file := Some (Document (PList (take 100 (history_entry req now # h))))\<rparr>)"
proof -
  let ?w1 = "w\<lparr>calls := calls w @ [call]\<rparr>"
  have "load_history ?w1 = PList h" using assms(2) by simp
  from log_and_return_list [OF this, of log_content now req "sanitize content"]
  show ?thesis using assms(1)
    by (simp add: try_generate_def Let_def first_content_def)
qed

text \<open>
  The history file decodes to a list in the empty store and after every request, whatever
  its outcome: a store that only these handlers write always satisfies the condition
  \<open>load_history w = PList h\<close> of the theorems below.
\<close>

lemma try_generate_keeps_list:
  assumes "load_history w = PList h"
  shows "\<exists>h'. load_history (snd (try_generate log_content remote now req call w)) = PList h'"
proof (cases "remote call")
  case (Inl msg)
  then show ?thesis using assms by (simp add: try_generate_def Let_def)
next
  case (Inr choices)
  show ?thesis
  proof (cases "first_content choices")
    case (Inl e)
    then show ?thesis using Inr assms by (simp add: try_generate_def Let_def)
  next
    case (Inr content)
    let ?w1 = "w\<lparr>calls := calls w @ [call]\<rparr>"
    have "load_history ?w1 = PList h" using assms by simp
    from log_and_return_list [OF this, of log_content now req "sanitize content"]
    show ?thesis using Inr \<open>remote call = Inr choices\<close>
      by (simp add: try_generate_def Let_def)
  qed
qed

lemma generate_ui_keeps_list:
  assumes "load_history w = PList h"
  shows "(\<exists>h'. load_history (snd (main_generate_ui remote now req w)) = PList h')
         \<and> (\<exists>h'. load_history (snd (gemini_generate_ui remote now req w)) = PList h')"
  using assms try_generate_keeps_list [OF assms]
  by (simp add: main_generate_ui_def gemini_generate_ui_def)

text \<open>The user prompt is a fixed frame around the first 5000 characters of the markup.\<close>

lemma main_user_prompt_frame:
  \<open>main_user_prompt req =
     (''\<newline>'' @
      ''    [User Action/Intent]: '' @ user_action req @
      ''\<newline>'' @
      ''    \<newline>'' @
      ''    [Current HTML Context]:\<newline>'' @
      ''    ```html\<newline>'' @
      ''    '') @ take 5000 (current_html req) @
     (''\<newline>'' @
      ''    ```\<newline>'' @
      ''    \<newline>'' @
      ''    Update the UI based on the user's action. Maintain consistent branding and layout.\<newline>'' @
      ''    '')\<close>
  by (simp add: main_user_prompt_def)

lemma gemini_user_prompt_frame:
  \<open>gemini_user_prompt req =
     (''\<newline>'' @
      ''    [User Action/Intent]: '' @ user_action req @
      ''\<newline>'' @
      ''    [Current HTML Context]:\<newline>'' @
      ''    '') @ take 5000 (current_html req) @
     (''\<newline>'' @
      ''    \<newline>'' @
      ''    Update the UI based on the user's action.\<newline>'' @
      ''    '')\<close>
  by (simp add: gemini_user_prompt_def)

lemma prompt_frame:
  assumes "\<And>req. prompt req = before (user_action req) @ take 5000 (current_html req) @ after"
  shows "\<exists>b a. \<forall>html. prompt (req\<lparr>current_html := html\<rparr>) =
           b @ (if length html > 5000 then take 5000 html else html) @ a"
proof -
  have "\<forall>html. prompt (req\<lparr>current_html := html\<rparr>) =
           before (user_action req) @ (if length html > 5000 then take 5000 html else html) @ after"
    by (simp add: assms)
  then show ?thesis by blast
qed

lemma sample_sanitize: "sanitize ''```html\<newline><p>new</p>\<newline>```'' = ''<p>new</p>''"
  by (simp add: sanitize_def strip_def replace_def isspace_def)

section \<open>Sanitization of the response\<close>

text \<open>
  C1. The claim: the cleanup removes a fence marker (\<open>```html\<close> or \<open>```\<close>) at most once, and
  only at the very start or the very end of the trimmed content; a marker elsewhere in
  the body stays in the returned HTML.
  The code calls \<open>replace\<close>, which removes every occurrence wherever it stands: the marker
  inside \<open><p>a```b</p>\<close> is removed.
\<close>

theorem sanitize_inner_fence:
  "contains ''<p>a```b</p>'' ''```'' \<and> sanitize ''<p>a```b</p>'' = ''<p>ab</p>''"
  by (simp add: sanitize_def strip_def replace_def isspace_def)

text \<open>
  C1, as the code has it: every occurrence of \<open>```html\<close> and then every occurrence of
  \<open>```\<close> is removed from the trimmed content, wherever it stands and however often, and
  the rest is kept. The returned HTML never contains \<open>```\<close>. A content without \<open>```\<close> is
  returned trimmed and otherwise unchanged. A content whose only backquotes are markers
  (\<open>first\<close>, then each marker followed by its piece, a \<open>```\<close> marker not followed by
  \<open>html\<close>) is returned as its pieces joined and trimmed.
\<close>

theorem sanitize_removes_all_fences:
  "\<not> contains (sanitize content) ''```''
   \<and> (\<not> contains content ''```'' \<longrightarrow> sanitize content = strip content)
   \<and> (CHR 0x60 \<notin> set first
       \<and> (\<forall>(fence, piece)\<in>set rest.
             (fence = ''```html'' \<or> fence = ''```'' \<and> \<not> startswith piece ''html'')
             \<and> CHR 0x60 \<notin> set piece)
       \<longrightarrow> sanitize (first @ concat (map (\<lambda>(fence, piece). fence @ piece) rest)) =
             strip (first @ concat (map snd rest)))"
proof (intro conjI impI)
  have "\<not> contains (replace (replace (strip content) ''```html'' []) ''```'' []) ''```''"
    by (simp add: replace_def [of _ "''```''"] replace_from_no_fence)
  then show "\<not> contains (sanitize content) ''```''"
    unfolding sanitize_def using contains_strip by blast
next
  assume "\<not> contains content ''```''"
  then have a: "\<not> contains (strip content) ''```''" using contains_strip by blast
  then have b: "\<not> contains (strip content) ''```html''" using contains_html_fence by blast
  have "replace (strip content) ''```html'' [] = strip content"
    using b by (simp add: replace_def replace_from_absent)
  moreover have "replace (strip content) ''```'' [] = strip content"
    using a by (simp add: replace_def replace_from_absent)
  ultimately show "sanitize content = strip content"
    by (simp add: sanitize_def strip_strip)
next
  assume a: "CHR 0x60 \<notin> set first
       \<and> (\<forall>(fence, piece)\<in>set rest.
             (fence = ''```html'' \<or> fence = ''```'' \<and> \<not> startswith piece ''html'')
             \<and> CHR 0x60 \<notin> set piece)"
  let ?x = "concat (map (\<lambda>(fence, piece). fence @ piece) rest)"
  let ?y = "concat (map (\<lambda>(fence, piece). (if fence = ''```html'' then [] else ''```'') @ piece) rest)"
  have "replace_from ''```html'' [] (first @ ?x) = first @ replace_from ''```html'' [] ?x"
    by (rule replace_from_copy) (use a in simp)
  also have "replace_from ''```html'' [] ?x = ?y"
    by (rule replace_html_fences) (use a in blast)
  finally have 1: "replace_from ''```html'' [] (first @ ?x) = first @ ?y" .
  have "replace_from ''```'' [] (first @ ?y) = first @ replace_from ''```'' [] ?y"
    by (rule replace_from_copy) (use a in simp)
  also have "replace_from ''```'' [] ?y = concat (map snd rest)"
    by (rule replace_plain_fences) (use a in blast)
  finally have 2: "replace_from ''```'' [] (first @ ?y) = first @ concat (map snd rest)" .
  show "sanitize (first @ ?x) = strip (first @ concat (map snd rest))"
    by (simp only: sanitize_eq 1 2)
qed

theorem sanitize_removes_all_fences_witness:
  "\<not> contains (sanitize ''  ```html\<newline><p>a```b</p>\<newline>``` '') ''```''
   \<and> CHR 0x60 \<notin> set ''  ''
   \<and> \<not> startswith ''b</p>\<newline>'' ''html'' \<and> \<not> startswith '' '' ''html''
   \<and> CHR 0x60 \<notin> set ''\<newline><p>a'' \<and> CHR 0x60 \<notin> set ''b</p>\<newline>'' \<and> CHR 0x60 \<notin> set '' ''
   \<and> sanitize ''  ```html\<newline><p>a```b</p>\<newline>``` '' = ''<p>ab</p>''
   \<and> \<not> contains ''  <p>hi</p> '' ''```''
   \<and> sanitize ''  <p>hi</p> '' = ''<p>hi</p>''"
proof -
  let ?rest = "[(''```html'', ''\<newline><p>a''), (''```'', ''b</p>\<newline>''), (''```'', '' '')]"
  have h: "CHR 0x60 \<notin> set ''  ''
       \<and> (\<forall>(fence, piece)\<in>set ?rest.
             (fence = ''```html'' \<or> fence = ''```'' \<and> \<not> startswith piece ''html'')
             \<and> CHR 0x60 \<notin> set piece)"
    by simp
  have t: "''  '' @ concat (map (\<lambda>(fence, piece). fence @ piece) ?rest) =
           ''  ```html\<newline><p>a```b</p>\<newline>``` ''"
    by simp
  have k: "strip (''  '' @ concat (map snd ?rest)) = ''<p>ab</p>''"
    by (simp add: strip_def isspace_def)
  have n: "\<not> contains ''  <p>hi</p> '' ''```''" by simp
  have s: "strip ''  <p>hi</p> '' = ''<p>hi</p>''" by (simp add: strip_def isspace_def)
  from sanitize_removes_all_fences [of "''  ```html\<newline><p>a```b</p>\<newline>``` ''" "''  ''" ?rest]
  have 1: "\<not> contains (sanitize ''  ```html\<newline><p>a```b</p>\<newline>``` '') ''```''"
    and "sanitize (''  '' @ concat (map (\<lambda>(fence, piece). fence @ piece) ?rest)) =
           strip (''  '' @ concat (map snd ?rest))"
    using h by blast+
  then have 2: "sanitize ''  ```html\<newline><p>a```b</p>\<newline>``` '' = ''<p>ab</p>''"
    by (simp only: t k)
  from sanitize_removes_all_fences [of "''  <p>hi</p> ''" "[]" "[]"] n
  have "sanitize ''  <p>hi</p> '' = strip ''  <p>hi</p> ''" by blast
  then have 3: "sanitize ''  <p>hi</p> '' = ''<p>hi</p>''" by (simp only: s)
  from 1 2 3 n show ?thesis by simp
qed

section \<open>Claims about the URL correction\<close>

text \<open>
  C2. The claim: a URL that begins with \<open>ttp\<close> comes out with exactly one \<open>h\<close> put in front.
  The code tests for the missing scheme first, so \<open>ttps://example.com\<close> has become
  \<open>http://ttps://example.com\<close> when the test for \<open>ttp\<close> runs, and that test fails: the
  result is not \<open>https://example.com\<close>.
\<close>

theorem resolve_ttp_input:
  "resolve ''ttps://example.com'' = ''http://ttps://example.com''
   \<and> resolve ''ttps://example.com'' \<noteq> ''h'' @ ''ttps://example.com''"
  by (simp add: resolve_def add_scheme_def repair_ttp_def add_openai_path_def gemini_host_def)

text \<open>
  C7. The claim: for a URL with the Gemini host and without \<open>/openai/\<close>, \<open>openai/\<close> is
  appended with exactly one slash in front of it, and correcting a corrected URL changes
  nothing. The code adds a slash only when the URL does not end with one, and keeps the
  slashes a URL ends with: after a URL that ends with two slashes, \<open>openai/\<close> follows two
  slashes.
\<close>

theorem resolve_gemini_two_slashes:
  "contains ''https://generativelanguage.googleapis.com//'' gemini_host
   \<and> \<not> contains ''https://generativelanguage.googleapis.com//'' ''/openai/''
   \<and> resolve ''https://generativelanguage.googleapis.com//'' =
       ''https://generativelanguage.googleapis.com//openai/''"
  by (simp add: resolve_def add_scheme_def repair_ttp_def add_openai_path_def gemini_host_def endswith_def)

text \<open>
  C7, as the code has it. The tests for the host and for \<open>/openai/\<close> are substring tests on
  the URL as it stands after the scheme has been added. When the first holds and the
  second fails, the result is that URL, one slash unless the URL already ends with a
  slash, and \<open>openai/\<close>. The correction is idempotent on every URL.
\<close>

theorem resolve_gemini:
  "(url \<noteq> [] \<and> contains (add_scheme url) gemini_host
      \<and> \<not> contains (add_scheme url) ''/openai/''
    \<longrightarrow> resolve url =
          (if endswith (add_scheme url) ''/'' then add_scheme url
           else add_scheme url @ ''/'') @ ''openai/'')
   \<and> resolve (resolve url) = resolve url"
proof (intro conjI impI)
  assume a: "url \<noteq> [] \<and> contains (add_scheme url) gemini_host
      \<and> \<not> contains (add_scheme url) ''/openai/''"
  then have "resolve url = add_openai_path (add_scheme url)"
    by (simp only: resolve_eq if_False)
  also have "\<dots> = (if endswith (add_scheme url) ''/'' then add_scheme url
           else add_scheme url @ ''/'') @ ''openai/''"
    using a unfolding add_openai_path_def by (cases "endswith (add_scheme url) ''/''") simp_all
  finally show "resolve url =
          (if endswith (add_scheme url) ''/'' then add_scheme url
           else add_scheme url @ ''/'') @ ''openai/''" .
next
  show "resolve (resolve url) = resolve url" by (rule resolve_idem)
qed

theorem resolve_gemini_witness:
  "(''https://generativelanguage.googleapis.com/v1beta'' \<noteq> []
    \<and> contains (add_scheme ''https://generativelanguage.googleapis.com/v1beta'') gemini_host
    \<and> \<not> contains (add_scheme ''https://generativelanguage.googleapis.com/v1beta'') ''/openai/'')
   \<and> resolve ''https://generativelanguage.googleapis.com/v1beta'' =
       ''https://generativelanguage.googleapis.com/v1beta/openai/''
   \<and> resolve (resolve ''https://generativelanguage.googleapis.com/v1beta'') =
       resolve ''https://generativelanguage.googleapis.com/v1beta''"
proof -
  let ?u = "''https://generativelanguage.googleapis.com/v1beta''"
  have h: "?u \<noteq> [] \<and> contains (add_scheme ?u) gemini_host
           \<and> \<not> contains (add_scheme ?u) ''/openai/''"
    by (simp add: add_scheme_def gemini_host_def)
  have e: "(if endswith (add_scheme ?u) ''/'' then add_scheme ?u else add_scheme ?u @ ''/'')
             @ ''openai/'' = ''https://generativelanguage.googleapis.com/v1beta/openai/''"
    by (simp add: add_scheme_def endswith_def)
  from resolve_gemini [of ?u] h
  have r: "resolve ?u = (if endswith (add_scheme ?u) ''/'' then add_scheme ?u
                         else add_scheme ?u @ ''/'') @ ''openai/''"
    and i: "resolve (resolve ?u) = resolve ?u"
    by blast+
  from r e have "resolve ?u = ''https://generativelanguage.googleapis.com/v1beta/openai/''"
    by (rule trans)
  with h i show ?thesis by blast
qed

text \<open>
  C8. A non-empty URL that does not begin with \<open>http\<close> is returned as \<open>http://\<close> followed by
  the URL as it was given; the only text that can follow it is the \<open>openai/\<close> path that the
  Gemini rule adds at the end.
\<close>

theorem resolve_adds_scheme:
  assumes "url \<noteq> []" and "\<not> startswith url ''http''"
  shows "startswith (resolve url) (''http://'' @ url)
         \<and> resolve url \<in> {''http://'' @ url,
                                 ''http://'' @ url @ ''openai/'',
                                 ''http://'' @ url @ ''/openai/''}"
proof -
  have "resolve url = add_openai_path (''http://'' @ url)"
    using assms by (simp add: resolve_eq add_scheme_def)
  then have mem: "resolve url \<in> {''http://'' @ url,
                                 ''http://'' @ url @ ''openai/'',
                                 ''http://'' @ url @ ''/openai/''}"
    by (simp add: add_openai_path_def)
  then have "\<exists>r. resolve url = (''http://'' @ url) @ r"
    by auto
  then show ?thesis using mem by (simp only: startswith_iff simp_thms)
qed

theorem resolve_adds_scheme_witness:
  "''localhost:11434/v1'' \<noteq> [] \<and> \<not> startswith ''localhost:11434/v1'' ''http''
   \<and> resolve ''localhost:11434/v1'' = ''http://localhost:11434/v1''"
  using resolve_adds_scheme [of "''localhost:11434/v1''"]
  by (simp add: resolve_def add_scheme_def repair_ttp_def add_openai_path_def gemini_host_def)

section \<open>Claims about the history\<close>

text \<open>
  C3. From an empty history, \<open>save_history\<close> called with 101 distinct entries one after the
  other succeeds every time and leaves exactly 100 entries: the entries in reverse order
  of the calls, newest first, without the first one. And whenever \<open>save_history\<close> returns,
  the list it has written has at most 100 entries.
\<close>

theorem history_bounded:
  "(load_history w = PList [] \<and> length entries = 101 \<and> distinct entries \<longrightarrow>
      (\<exists>w'. save_history_all entries w = Inr w'
            \<and> load_history w' = PList (rev (tl entries))
            \<and> length (rev (tl entries)) = 100
            \<and> hd entries \<notin> set (rev (tl entries))))
   \<and> (save_history e w0 = Inr w1 \<longrightarrow> (\<exists>h. load_history w1 = PList h \<and> length h \<le> 100))"
proof (intro conjI impI)
  assume a: "load_history w = PList [] \<and> length entries = 101 \<and> distinct entries"
  then obtain w' where w': "save_history_all entries w = Inr w'"
    "load_history w' = PList (if entries = [] then [] else take 100 (rev entries @ []))"
    using save_history_all_list [of w "[]" entries] by blast
  from a obtain x xs where e: "entries = x # xs" by (cases entries) auto
  with a have lx: "length xs = 100" and nx: "x \<notin> set xs" by auto
  have "take 100 (rev entries @ []) = rev (tl entries)"
    using e lx by simp
  with w' e lx nx show "\<exists>w'. save_history_all entries w = Inr w'
            \<and> load_history w' = PList (rev (tl entries))
            \<and> length (rev (tl entries)) = 100
            \<and> hd entries \<notin> set (rev (tl entries))"
    by simp
next
  assume "save_history e w0 = Inr w1"
  then obtain h where "w1 = w0\<lparr>history_file := Some (Document (PList (take 100 (e # h))))\<rparr>"
    using save_history_Inr by blast
  then have "load_history w1 = PList (take 100 (e # h))" by simp
  moreover have "length (take 100 (e # h)) \<le> 100" by simp
  ultimately show "\<exists>h. load_history w1 = PList h \<and> length h \<le> 100" by blast
qed

theorem history_bounded_witness:
  "load_history empty_world = PList []
   \<and> length (map PInt [1..101]) = 101
   \<and> distinct (map PInt [1..101])
   \<and> (\<exists>w'. save_history_all (map PInt [1..101]) empty_world = Inr w'
            \<and> load_history w' = PList (rev (tl (map PInt [1..101]))))
   \<and> save_history (PInt 1) empty_world =
        Inr (empty_world\<lparr>history_file := Some (Document (PList [PInt 1]))\<rparr>)
   \<and> (\<exists>h. load_history (empty_world\<lparr>history_file := Some (Document (PList [PInt 1]))\<rparr>) = PList h
          \<and> length h \<le> 100)"
proof -
  have 1: "load_history empty_world = PList []"
    by (simp add: load_history_def empty_world_def)
  have 2: "length (map PInt [1..101]) = 101" by simp
  have 3: "distinct (map PInt [1..101])" by (simp add: distinct_map inj_on_def)
  have 4: "save_history (PInt 1) empty_world =
        Inr (empty_world\<lparr>history_file := Some (Document (PList [PInt 1]))\<rparr>)"
    using 1 by (simp add: save_history_def)
  from history_bounded [of empty_world "map PInt [1..101]" "PInt 1" empty_world
      "empty_world\<lparr>history_file := Some (Document (PList [PInt 1]))\<rparr>"] 1 2 3 4
  show ?thesis by blast
qed

text \<open>
  C6. When the history file does not exist, or exists and cannot be decoded as JSON,
  \<open>load_history\<close> returns the empty list. \<open>load_history\<close> has no error result: the
  exception of \<open>json.load\<close> ends in the \<open>except\<close> branch.
\<close>

theorem load_history_recovers:
  "history_file w = None \<or> history_file w = Some Malformed \<Longrightarrow> load_history w = PList []"
  by (auto simp: load_history_def json_load_def)

theorem load_history_recovers_witness:
  "load_history \<lparr>history_file = None, files = Map.empty, calls = []\<rparr> = PList []
   \<and> load_history \<lparr>history_file = Some Malformed, files = Map.empty, calls = []\<rparr> = PList []"
  using load_history_recovers [of "\<lparr>history_file = None, files = Map.empty, calls = []\<rparr>"]
    load_history_recovers [of "\<lparr>history_file = Some Malformed, files = Map.empty, calls = []\<rparr>"]
  by simp

section \<open>Claims about generation\<close>

text \<open>
  C4. When the credentials are accepted, \<open>generate_ui\<close> makes one remote call, and the
  user message of that call is a frame, which does not depend on the markup, around the
  first 5000 characters of \<open>current_html\<close> when it is longer than 5000 characters and
  around the whole of it otherwise. This holds in both services.
\<close>

theorem prompt_truncated:
  "(\<not> (api_key req = [] \<and> llm_url req = []) \<longrightarrow>
      calls (snd (main_generate_ui remote now req w)) = calls w @ [main_call req])
   \<and> (api_key req \<noteq> [] \<longrightarrow>
      calls (snd (gemini_generate_ui remote now req w)) = calls w @ [gemini_call req])
   \<and> (\<exists>before after. \<forall>html.
        user_content (main_call (req\<lparr>current_html := html\<rparr>)) =
          before @ (if length html > 5000 then take 5000 html else html) @ after)
   \<and> (\<exists>before after. \<forall>html.
        user_content (gemini_call (req\<lparr>current_html := html\<rparr>)) =
          before @ (if length html > 5000 then take 5000 html else html) @ after)"
proof (intro conjI impI)
  assume "\<not> (api_key req = [] \<and> llm_url req = [])"
  then show "calls (snd (main_generate_ui remote now req w)) = calls w @ [main_call req]"
    by (simp only: main_generate_ui_def if_False try_generate_calls)
next
  assume "api_key req \<noteq> []"
  then show "calls (snd (gemini_generate_ui remote now req w)) = calls w @ [gemini_call req]"
    by (simp only: gemini_generate_ui_def if_False try_generate_calls)
next
  have m: "\<And>r. user_content (main_call r) = main_user_prompt r"
    by (simp add: main_call_def)
  show "\<exists>before after. \<forall>html.
        user_content (main_call (req\<lparr>current_html := html\<rparr>)) =
          before @ (if length html > 5000 then take 5000 html else html) @ after"
    unfolding m by (rule prompt_frame) (rule main_user_prompt_frame)
next
  have m: "\<And>r. user_content (gemini_call r) = gemini_user_prompt r"
    by (simp add: gemini_call_def)
  show "\<exists>before after. \<forall>html.
        user_content (gemini_call (req\<lparr>current_html := html\<rparr>)) =
          before @ (if length html > 5000 then take 5000 html else html) @ after"
    unfolding m by (rule prompt_frame) (rule gemini_user_prompt_frame)
qed

theorem prompt_truncated_witness:
  "\<not> (api_key sample_request = [] \<and> llm_url sample_request = [])
   \<and> api_key sample_request \<noteq> []
   \<and> calls (snd (main_generate_ui sample_remote sample_now sample_request empty_world)) =
       [main_call sample_request]
   \<and> calls (snd (gemini_generate_ui sample_remote sample_now sample_request empty_world)) =
       [gemini_call sample_request]"
proof -
  have h: "\<not> (api_key sample_request = [] \<and> llm_url sample_request = [])"
    "api_key sample_request \<noteq> []"
    by (simp_all add: sample_request_def)
  have c: "calls empty_world = []" by (simp add: empty_world_def)
  from prompt_truncated [of sample_request sample_remote sample_now empty_world] h
  have "calls (snd (main_generate_ui sample_remote sample_now sample_request empty_world)) =
          calls empty_world @ [main_call sample_request]"
    and "calls (snd (gemini_generate_ui sample_remote sample_now sample_request empty_world)) =
          calls empty_world @ [gemini_call sample_request]"
    by blast+
  with h c show ?thesis by simp
qed

text \<open>
  C5. When \<open>api_key\<close> and \<open>llm_url\<close> are both empty, \<open>generate_ui\<close> answers with the error 400
  in both services and the state is the one it started from: no remote call is recorded,
  no file is written and the history is as it was.
\<close>

theorem missing_credentials_rejected:
  assumes "api_key req = []" and "llm_url req = []"
  shows "main_generate_ui remote now req w =
           (Inl (HTTPException 400 ''API Key or Local LLM URL is required.''), w)
         \<and> gemini_generate_ui remote now req w =
           (Inl (HTTPException 400 ''Gemini API Key is required.''), w)"
  using assms by (simp add: main_generate_ui_def gemini_generate_ui_def)

theorem missing_credentials_rejected_witness:
  "api_key (sample_request\<lparr>api_key := []\<rparr>) = []
   \<and> llm_url (sample_request\<lparr>api_key := []\<rparr>) = []
   \<and> main_generate_ui sample_remote sample_now (sample_request\<lparr>api_key := []\<rparr>) empty_world =
       (Inl (HTTPException 400 ''API Key or Local LLM URL is required.''), empty_world)
   \<and> gemini_generate_ui sample_remote sample_now (sample_request\<lparr>api_key := []\<rparr>) empty_world =
       (Inl (HTTPException 400 ''Gemini API Key is required.''), empty_world)"
proof -
  have h: "api_key (sample_request\<lparr>api_key := []\<rparr>) = []"
    "llm_url (sample_request\<lparr>api_key := []\<rparr>) = []"
    by (simp_all add: sample_request_def)
  from missing_credentials_rejected [OF h, of sample_remote sample_now empty_world] h
  show ?thesis by blast
qed



text \<open>
  C10. In \<open>main.py\<close>, a request whose \<open>model\<close> is the empty string is sent to the remote
  service with the model \<open>gpt-4o\<close>, and the history entry written for it records the empty
  string as its model.
\<close>

theorem main_empty_model:
  assumes "model req = []"
    and "api_key req \<noteq> [] \<or> llm_url req \<noteq> []"
    and "remote (main_call req) = Inr (Some content # others)"
    and "load_history w = PList h"
  shows "\<exists>w' entry older.
           main_generate_ui remote now req w = (Inr (sanitize content), w')
           \<and> calls w' = calls w @ [main_call req]
           \<and> create_model (main_call req) = ''gpt-4o''
           \<and> load_history w' = PList (entry # older)
           \<and> dict_get entry ''model'' = Some (PStr [])"
proof -
  let ?w' = "w\<lparr>calls := calls w @ [main_call req],
         files := (files w)(path_join LOG_DIR (artifact_name now)
                              \<mapsto> main_log_content (sanitize content)),
         history_file := Some (Document (PList (take 100 (history_entry req now # h))))\<rparr>"
  have "main_generate_ui remote now req w =
      try_generate main_log_content remote now req (main_call req) w"
    using assms(2) by (auto simp: main_generate_ui_def)
  also have "\<dots> = (Inr (sanitize content), ?w')"
    using assms(3,4) by (rule try_generate_success)
  finally have 1: "main_generate_ui remote now req w = (Inr (sanitize content), ?w')" .
  have 2: "calls ?w' = calls w @ [main_call req]" by simp
  have 3: "create_model (main_call req) = ''gpt-4o''"
    using assms(1) by (simp add: main_call_def)
  have 4: "load_history ?w' = PList (history_entry req now # take 99 h)" by simp
  have 5: "dict_get (history_entry req now) ''model'' = Some (PStr [])"
    using assms(1) by (simp add: history_entry_def)
  from 1 2 3 4 5 show ?thesis by blast
qed

theorem main_empty_model_witness:
  "model sample_request = []
   \<and> api_key sample_request \<noteq> []
   \<and> sample_remote (main_call sample_request) = Inr [Some ''```html\<newline><p>new</p>\<newline>```'']
   \<and> load_history empty_world = PList []
   \<and> (\<exists>w' entry older.
        main_generate_ui sample_remote sample_now sample_request empty_world =
          (Inr ''<p>new</p>'', w')
        \<and> calls w' = [main_call sample_request]
        \<and> create_model (main_call sample_request) = ''gpt-4o''
        \<and> load_history w' = PList (entry # older)
        \<and> dict_get entry ''model'' = Some (PStr []))"
proof -
  have m: "model sample_request = []" by (simp add: sample_request_def)
  have k': "api_key sample_request \<noteq> []" by (simp add: sample_request_def)
  then have k: "api_key sample_request \<noteq> [] \<or> llm_url sample_request \<noteq> []" ..
  have r: "sample_remote (main_call sample_request) =
             Inr (Some ''```html\<newline><p>new</p>\<newline>```'' # [])"
    by (simp add: sample_remote_def)
  have c: "calls empty_world = []" by (simp add: empty_world_def)
  from main_empty_model [where req = sample_request and remote = sample_remote
      and w = empty_world and now = sample_now, OF m k r empty_world_history]
  show ?thesis using m k' r empty_world_history
    by (simp add: sample_sanitize c)
qed

end
